theory Spec2Isabelle
  imports Main "HOL-Library.Word"
begin

unbundle bit_operations_syntax

section \<open>JavaScript values used by the filter\<close>

text \<open>
  The filter of \<^verbatim>\<open>src/main.js\<close> works on JavaScript numbers and strings. The numbers that
  occur are integers (sizes, loop counters, UTF-16 code units, 32-bit hashes and their
  intermediate sums, all far below \<open>2^53\<close>, where the arithmetic of doubles is exact), so
  they are modelled as \<open>int\<close>, and \<^verbatim>\<open>size\<close> and \<^verbatim>\<open>numHashes\<close> are taken to be integers; the one
  non-integer that the code can produce is \<open>NaN\<close>, from the remainder by zero, and it
  is a value of its own. A string is its sequence of UTF-16 code units, which is what
  \<^verbatim>\<open>item.length\<close> counts and \<^verbatim>\<open>item.charCodeAt(i)\<close> reads.
\<close>

datatype jsnum = Num int | NaN

type_synonym js_string = "16 word list"

text \<open>The bitwise operators convert their operands with ToInt32 and return an int32.\<close>

definition ToInt32 :: "int \<Rightarrow> int" where
  "ToInt32 x = sint (word_of_int x :: 32 word)"

definition js_shl :: "int \<Rightarrow> nat \<Rightarrow> int" where
  \<comment> \<open>\<^verbatim>\<open>x << n\<close>: the shift count is taken modulo 32\<close>
  "js_shl x n = sint (push_bit (n mod 32) (word_of_int x :: 32 word))"

definition js_and :: "int \<Rightarrow> int \<Rightarrow> int" where
  \<comment> \<open>\<^verbatim>\<open>x & y\<close>\<close>
  "js_and x y = sint ((word_of_int x :: 32 word) AND word_of_int y)"

definition js_xor :: "int \<Rightarrow> int \<Rightarrow> int" where
  \<comment> \<open>\<^verbatim>\<open>x ^ y\<close>\<close>
  "js_xor x y = sint ((word_of_int x :: 32 word) XOR word_of_int y)"

definition js_rem :: "int \<Rightarrow> int \<Rightarrow> jsnum" where
  \<comment> \<open>\<^verbatim>\<open>a % b\<close>: the remainder has the sign of the dividend; by zero it is NaN\<close>
  "js_rem a b = (if b = 0 then NaN else Num (sgn a * (\<bar>a\<bar> mod \<bar>b\<bar>)))"

fun Math_abs :: "jsnum \<Rightarrow> jsnum" where
  "Math_abs (Num x) = Num \<bar>x\<bar>"
| "Math_abs NaN = NaN"

definition charCode :: "16 word \<Rightarrow> int" where
  "charCode c = uint c"

section \<open>The class BloomFilter\<close>

text \<open>
  The bit array is a JavaScript array, that is an object whose properties are looked up by
  key: reading a key that was never written gives \<^verbatim>\<open>undefined\<close> (here \<open>None\<close>), writing
  a key creates or overwrites it. The key is the number computed by \<^verbatim>\<open>_hash\<close>, which is
  an index or \<open>NaN\<close>. The array's length is read by no method after construction and is
  not part of the state.
\<close>

record BloomFilter =
  size_m :: int
  numHashes :: int
  bitArray :: "jsnum \<rightharpoonup> int"

datatype error = RangeError

definition Array_fill0 :: "int \<Rightarrow> (jsnum \<rightharpoonup> int)" where
  \<comment> \<open>\<^verbatim>\<open>new Array(size).fill(0)\<close> for a valid length\<close>
  "Array_fill0 n = (\<lambda>k. case k of Num i \<Rightarrow> (if 0 \<le> i \<and> i < n then Some 0 else None)
                                   | NaN \<Rightarrow> None)"

definition constructor :: "int \<Rightarrow> int \<Rightarrow> error + BloomFilter" where
  \<comment> \<open>\<^verbatim>\<open>new Array(size)\<close> throws a RangeError unless \<open>0 \<le> size \<le> 2^32 - 1\<close>\<close>
  "constructor sz k =
     (if 0 \<le> sz \<and> sz < 2 ^ 32
      then Inr \<lparr>size_m = sz, numHashes = k, bitArray = Array_fill0 sz\<rparr>
      else Inl RangeError)"

subsection \<open>The method \<^verbatim>\<open>_hash\<close>\<close>

definition hash_step :: "int \<Rightarrow> int \<Rightarrow> int" where
  \<comment> \<open>the loop body: \<^verbatim>\<open>hash = (hash << 5) - hash + char; hash = hash & hash\<close>\<close>
  "hash_step hash char = (let hash1 = js_shl hash 5 - hash + char in js_and hash1 hash1)"

fun hash_loop :: "js_string \<Rightarrow> int \<Rightarrow> int" where
  "hash_loop [] hash = hash"
| "hash_loop (c # cs) hash = hash_loop cs (hash_step hash (charCode c))"

definition u_hash :: "BloomFilter \<Rightarrow> js_string \<Rightarrow> int \<Rightarrow> jsnum" where
  \<comment> \<open>\<^verbatim>\<open>_hash(item, seed)\<close>; the \<^verbatim>\<open>console.log\<close> of the result is output only\<close>
  "u_hash bf item seed =
     (let hash = hash_loop item 0;
          hash = js_xor hash seed
      in Math_abs (js_rem hash (size_m bf)))"

subsection \<open>The reference hash of the specification\<close>

definition spec_hash_step :: "int \<Rightarrow> int \<Rightarrow> int" where
  \<comment> \<open>\<open>hash = (hash * 31 + codepoint)\<close>, wrapped to 32-bit signed\<close>
  "spec_hash_step hash codepoint = ToInt32 (hash * 31 + codepoint)"

fun spec_hash :: "js_string \<Rightarrow> int \<Rightarrow> int" where
  "spec_hash [] hash = hash"
| "spec_hash (c # cs) hash = spec_hash cs (spec_hash_step hash (charCode c))"

subsection \<open>The methods \<^verbatim>\<open>add\<close> and \<^verbatim>\<open>contains\<close>\<close>

function add_loop :: "BloomFilter \<Rightarrow> js_string \<Rightarrow> int \<Rightarrow> BloomFilter" where
  "add_loop bf item i =
     (if i < numHashes bf
      then add_loop (bf\<lparr>bitArray := (bitArray bf)(u_hash bf item i \<mapsto> 1)\<rparr>) item (i + 1)
      else bf)"
  by pat_completeness auto
termination
  by (relation "measure (\<lambda>(bf, item, i). nat (numHashes bf - i))") auto

definition add :: "BloomFilter \<Rightarrow> js_string \<Rightarrow> BloomFilter" where
  "add bf item = add_loop bf item 0"

text \<open>
  \<^verbatim>\<open>contains\<close> returns its result together with the filter it leaves behind.
\<close>

function contains_loop :: "BloomFilter \<Rightarrow> js_string \<Rightarrow> int \<Rightarrow> bool \<times> BloomFilter" where
  "contains_loop bf item i =
     (if i < numHashes bf
      then (if bitArray bf (u_hash bf item i) = Some 0 then (False, bf)
            else contains_loop bf item (i + 1))
      else (True, bf))"
  by pat_completeness auto
termination
  by (relation "measure (\<lambda>(bf, item, i). nat (numHashes bf - i))") auto

definition contains :: "BloomFilter \<Rightarrow> js_string \<Rightarrow> bool \<times> BloomFilter" where
  "contains bf item = contains_loop bf item 0"

subsection \<open>Sequences of calls on one filter\<close>

datatype call = Add js_string | Contains js_string

fun step :: "BloomFilter \<Rightarrow> call \<Rightarrow> BloomFilter" where
  "step bf (Add item) = add bf item"
| "step bf (Contains item) = snd (contains bf item)"

definition run :: "BloomFilter \<Rightarrow> call list \<Rightarrow> BloomFilter" where
  "run bf cs = foldl step bf cs"

text \<open>The keys that the loops of \<^verbatim>\<open>add\<close> and \<^verbatim>\<open>contains\<close> visit from counter \<open>i\<close> on.\<close>

definition indices :: "BloomFilter \<Rightarrow> js_string \<Rightarrow> int \<Rightarrow> jsnum set" where
  "indices bf item i = u_hash bf item ` {i..<numHashes bf}"

subsection \<open>Values of the first test case\<close>

text \<open>
  The filter \<^verbatim>\<open>bf1 = new BloomFilter(100, 3)\<close> and the strings \<^verbatim>\<open>"apple"\<close>, \<^verbatim>\<open>"banana"\<close> and
  \<^verbatim>\<open>"grape"\<close> of test case 1, written as their code units.
\<close>

definition apple :: js_string where "apple = [97, 112, 112, 108, 101]"
definition banana :: js_string where "banana = [98, 97, 110, 97, 110, 97]"
definition grape :: js_string where "grape = [103, 114, 97, 112, 101]"
definition bf1 :: BloomFilter where
  "bf1 = \<lparr>size_m = 100, numHashes = 3, bitArray = Array_fill0 100\<rparr>"

declare add_loop.simps [simp del] contains_loop.simps [simp del]

section \<open>The hash\<close>

lemma js_and_self: "js_and x x = ToInt32 x"
  by (simp add: js_and_def ToInt32_def)

lemma ToInt32_cong: "(word_of_int x :: 32 word) = word_of_int y \<Longrightarrow> ToInt32 x = ToInt32 y"
  by (simp add: ToInt32_def)

lemma hash_step_eq: "hash_step h c = spec_hash_step h c"
proof -
  have "(word_of_int (js_shl h 5 - h + c) :: 32 word) = word_of_int (h * 31 + c)"
    by (simp add: js_shl_def push_bit_eq_mult)
  then have "ToInt32 (js_shl h 5 - h + c) = ToInt32 (h * 31 + c)"
    by (rule ToInt32_cong)
  then show ?thesis
    by (simp add: hash_step_def spec_hash_step_def js_and_self)
qed

lemma hash_loop_eq: "hash_loop item h = spec_hash item h"
  by (induction item arbitrary: h) (simp_all add: hash_step_eq)

lemma u_hash_bitArray_update [simp]: "u_hash (bf\<lparr>bitArray := m\<rparr>) item seed = u_hash bf item seed"
  by (simp add: u_hash_def)

lemma u_hash_size_only: "size_m bf = size_m bf' \<Longrightarrow> u_hash bf item seed = u_hash bf' item seed"
  by (simp add: u_hash_def)

lemma abs_rem_bound:
  fixes h sz :: int
  assumes "0 < sz"
  shows "0 \<le> \<bar>sgn h * (\<bar>h\<bar> mod \<bar>sz\<bar>)\<bar> \<and> \<bar>sgn h * (\<bar>h\<bar> mod \<bar>sz\<bar>)\<bar> < sz"
proof -
  have r: "0 \<le> \<bar>h\<bar> mod sz \<and> \<bar>h\<bar> mod sz < sz"
    using assms by simp
  have "\<bar>sgn h * (\<bar>h\<bar> mod \<bar>sz\<bar>)\<bar> = \<bar>sgn h\<bar> * (\<bar>h\<bar> mod sz)"
    using assms r by (simp add: abs_mult)
  also have "\<dots> \<le> \<bar>h\<bar> mod sz"
    using r by (cases "h = 0") (simp_all add: abs_sgn_eq)
  finally show ?thesis using r by simp
qed

lemma u_hash_in_range:
  assumes "0 < size_m bf"
  shows "\<exists>i. u_hash bf item seed = Num i \<and> 0 \<le> i \<and> i < size_m bf"
  using assms abs_rem_bound [OF assms]
  by (simp add: u_hash_def js_rem_def Let_def)

lemma u_hash_size_zero: "size_m bf = 0 \<Longrightarrow> u_hash bf item seed = NaN"
  by (simp add: u_hash_def js_rem_def Let_def)

lemma add_loop_eq:
  "add_loop bf item i =
     bf\<lparr>bitArray := (\<lambda>key. if key \<in> indices bf item i then Some 1 else bitArray bf key)\<rparr>"
proof (induction bf item i rule: add_loop.induct)
  case (1 bf item i)
  show ?case
  proof (cases "i < numHashes bf")
    case True
    then have split: "{i..<numHashes bf} = insert i {i + 1..<numHashes bf}"
      by auto
    show ?thesis
      using True "1.IH" [OF True]
      by (subst add_loop.simps) (auto simp: indices_def split fun_eq_iff)
  next
    case False
    then show ?thesis
      by (subst add_loop.simps) (simp add: indices_def)
  qed
qed

lemma contains_loop_eq:
  "contains_loop bf item i =
     (\<forall>key \<in> indices bf item i. bitArray bf key \<noteq> Some 0, bf)"
proof (induction bf item i rule: contains_loop.induct)
  case (1 bf item i)
  show ?case
  proof (cases "i < numHashes bf")
    case True
    then have split: "{i..<numHashes bf} = insert i {i + 1..<numHashes bf}"
      by auto
    show ?thesis
      using True "1.IH"
      by (subst contains_loop.simps) (auto simp: indices_def split)
  next
    case False
    then show ?thesis
      by (subst contains_loop.simps) (simp add: indices_def)
  qed
qed

lemma add_eq:
  "add bf item =
     bf\<lparr>bitArray := (\<lambda>key. if key \<in> indices bf item 0 then Some 1 else bitArray bf key)\<rparr>"
  by (simp add: add_def add_loop_eq)

lemma contains_eq:
  "contains bf item = (\<forall>key \<in> indices bf item 0. bitArray bf key \<noteq> Some 0, bf)"
  by (simp add: contains_def contains_loop_eq)

lemma indices_cong:
  "size_m bf' = size_m bf \<Longrightarrow> numHashes bf' = numHashes bf \<Longrightarrow>
   indices bf' item i = indices bf item i"
  by (simp add: indices_def u_hash_def)

lemma step_size [simp]: "size_m (step bf c) = size_m bf"
  by (cases c) (simp_all add: add_eq contains_eq)

lemma step_numHashes [simp]: "numHashes (step bf c) = numHashes bf"
  by (cases c) (simp_all add: add_eq contains_eq)

lemma step_keeps_one: "bitArray bf key = Some 1 \<Longrightarrow> bitArray (step bf c) key = Some 1"
  by (cases c) (simp_all add: add_eq contains_eq)

lemma step_zero_was_zero: "bitArray (step bf c) key = Some 0 \<Longrightarrow> bitArray bf key = Some 0"
  by (cases c) (simp_all add: add_eq contains_eq split: if_splits)

lemma step_bits01:
  "bitArray (step bf c) key = Some v \<Longrightarrow> v = 1 \<or> bitArray bf key = Some v"
  by (cases c) (simp_all add: add_eq contains_eq split: if_splits)

lemma step_dom:
  "0 < size_m bf \<Longrightarrow> dom (bitArray bf) = Num ` {0..<size_m bf} \<Longrightarrow>
   dom (bitArray (step bf c)) = Num ` {0..<size_m bf}"
proof (cases c)
  case (Add item)
  assume pos: "0 < size_m bf" and d: "dom (bitArray bf) = Num ` {0..<size_m bf}"
  have "indices bf item 0 \<subseteq> Num ` {0..<size_m bf}"
    using u_hash_in_range [OF pos] by (fastforce simp: indices_def)
  then show ?thesis
    using d Add by (auto simp: add_eq dom_def split: if_splits)
next
  case (Contains item)
  assume "dom (bitArray bf) = Num ` {0..<size_m bf}"
  then show ?thesis using Contains by (simp add: contains_eq)
qed

lemma run_Nil [simp]: "run bf [] = bf"
  by (simp add: run_def)

lemma run_Cons [simp]: "run bf (c # cs) = run (step bf c) cs"
  by (simp add: run_def)

lemma run_size [simp]: "size_m (run bf cs) = size_m bf"
  by (induction cs arbitrary: bf) simp_all

lemma run_numHashes [simp]: "numHashes (run bf cs) = numHashes bf"
  by (induction cs arbitrary: bf) simp_all

lemma run_keeps_one: "bitArray bf key = Some 1 \<Longrightarrow> bitArray (run bf cs) key = Some 1"
  by (induction cs arbitrary: bf) (simp_all add: step_keeps_one)

lemma run_zero_was_zero: "bitArray (run bf cs) key = Some 0 \<Longrightarrow> bitArray bf key = Some 0"
  by (induction cs arbitrary: bf) (auto dest: step_zero_was_zero)

lemma run_bits01:
  "bitArray (run bf cs) key = Some v \<Longrightarrow> v = 1 \<or> bitArray bf key = Some v"
  by (induction cs arbitrary: bf) (auto dest: step_bits01)

lemma run_dom:
  "0 < size_m bf \<Longrightarrow> dom (bitArray bf) = Num ` {0..<size_m bf} \<Longrightarrow>
   dom (bitArray (run bf cs)) = Num ` {0..<size_m bf}"
proof (induction cs arbitrary: bf)
  case Nil
  then show ?case by simp
next
  case (Cons c cs)
  have "dom (bitArray (run (step bf c) cs)) = Num ` {0..<size_m (step bf c)}"
    using Cons.prems by (intro Cons.IH) (simp_all add: step_dom)
  then show ?case by simp
qed

lemma run_indices [simp]: "indices (run bf cs) item i = indices bf item i"
  by (rule indices_cong) simp_all

lemma add_indices [simp]: "indices (add bf x) item i = indices bf item i"
  by (rule indices_cong) (simp_all add: add_eq)

lemma constructor_Inr:
  "constructor sz k = Inr bf \<Longrightarrow>
   0 \<le> sz \<and> sz < 2 ^ 32 \<and> size_m bf = sz \<and> numHashes bf = k \<and> bitArray bf = Array_fill0 sz"
  by (auto simp: constructor_def split: if_splits)

lemma dom_Array_fill0: "dom (Array_fill0 n) = Num ` {0..<n}"
proof (rule set_eqI)
  fix key
  show "key \<in> dom (Array_fill0 n) \<longleftrightarrow> key \<in> Num ` {0..<n}"
    by (cases key) (auto simp: Array_fill0_def dom_def)
qed

lemma Array_fill0_values: "Array_fill0 n key = Some v \<Longrightarrow> v = 0"
  by (auto simp: Array_fill0_def split: jsnum.splits if_splits)

lemma add_add:
  "add (add bf x) y =
     bf\<lparr>bitArray := (\<lambda>key. if key \<in> indices bf x 0 \<union> indices bf y 0 then Some 1
                             else bitArray bf key)\<rparr>"
proof -
  have ix: "indices (add bf x) y 0 = indices bf y 0"
    by simp
  have "add (add bf x) y =
          (add bf x)\<lparr>bitArray := (\<lambda>key. if key \<in> indices bf y 0 then Some 1
                                        else bitArray (add bf x) key)\<rparr>"
    using add_eq [of "add bf x" y] by (simp only: ix)
  also have "\<dots> = bf\<lparr>bitArray := (\<lambda>key. if key \<in> indices bf x 0 \<union> indices bf y 0 then Some 1
                             else bitArray bf key)\<rparr>"
    by (simp add: add_eq fun_eq_iff)
  finally show ?thesis .
qed

section \<open>The claims\<close>

text \<open>
  Claim C1 (no false negatives). Take any filter, in particular one returned by the
  constructor for a positive size and a positive number of hashes, after any calls
  \<open>before\<close>. Once \<^verbatim>\<open>add(x)\<close> has been called, \<^verbatim>\<open>contains(x)\<close> returns \<^verbatim>\<open>true\<close> after any
  further sequence \<open>after\<close> of \<^verbatim>\<open>add\<close> and \<^verbatim>\<open>contains\<close> calls on that filter.
\<close>

theorem no_false_negatives:
  "fst (contains (run (add (run bf before) x) after) x) = True"
proof -
  let ?bf1 = "add (run bf before) x"
  have ones: "bitArray ?bf1 key = Some 1" if "key \<in> indices bf x 0" for key
    using that by (simp add: add_eq)
  have same: "indices (run ?bf1 after) x 0 = indices bf x 0"
    by simp
  have "bitArray (run ?bf1 after) key = Some 1" if "key \<in> indices bf x 0" for key
    using ones [OF that] by (rule run_keeps_one)
  then show ?thesis
    by (simp add: contains_eq same)
qed

text \<open>
  Claim C2 (refinement of the reference hash). The loop body of \<^verbatim>\<open>_hash\<close>,
  \<^verbatim>\<open>hash = (hash << 5) - hash + char\<close> followed by \<^verbatim>\<open>hash = hash & hash\<close>, computes the
  reference update \<open>hash * 31 + codepoint\<close> wrapped to 32-bit signed, for every accumulator
  (in particular every int32) and every character code; hence the running hash of the
  code and the reference running hash agree on every string, from every start value.
\<close>

theorem hash_refines_spec:
  "hash_step h c = spec_hash_step h c \<and> hash_loop item h = spec_hash item h"
  by (simp add: hash_step_eq hash_loop_eq)

text \<open>
  Claim C3 (index bound). For a filter of positive size, every string and every integer
  seed, \<^verbatim>\<open>_hash\<close> returns an integer index with \<open>0 \<le> index < size\<close>. For a filter built by
  the constructor with positive size, after any calls, that index is a slot of the bit
  array, so every access of \<^verbatim>\<open>add\<close> and \<^verbatim>\<open>contains\<close> is within bounds.
\<close>

theorem index_bound:
  "(0 < size_m bf \<longrightarrow> (\<exists>i. u_hash bf item seed = Num i \<and> 0 \<le> i \<and> i < size_m bf)) \<and>
   (constructor sz k = Inr bf0 \<and> 0 < sz \<longrightarrow>
      u_hash (run bf0 cs) item seed \<in> dom (bitArray (run bf0 cs)))"
proof (intro conjI impI)
  assume "0 < size_m bf"
  then show "\<exists>i. u_hash bf item seed = Num i \<and> 0 \<le> i \<and> i < size_m bf"
    by (rule u_hash_in_range)
next
  assume a: "constructor sz k = Inr bf0 \<and> 0 < sz"
  then have bf0: "size_m bf0 = sz" "bitArray bf0 = Array_fill0 sz"
    using constructor_Inr by blast+
  have d: "dom (bitArray (run bf0 cs)) = Num ` {0..<sz}"
    using a bf0 run_dom [of bf0 cs] by (simp add: dom_Array_fill0)
  have "0 < size_m (run bf0 cs)"
    using a bf0 by simp
  from u_hash_in_range [OF this, of item seed] show
    "u_hash (run bf0 cs) item seed \<in> dom (bitArray (run bf0 cs))"
    unfolding d using bf0 by auto
qed

theorem index_bound_witness:
  "0 < size_m bf1 \<and> u_hash bf1 apple 1 = Num 11 \<and> constructor 100 3 = Inr bf1 \<and> (0::int) < 100 \<and>
   u_hash (run bf1 [Add banana]) apple 1 \<in> dom (bitArray (run bf1 [Add banana]))"
  using index_bound [of bf1 apple 1 100 3 bf1 "[Add banana]"]
  by (simp add: bf1_def constructor_def u_hash_def hash_step_def js_shl_def js_and_def
      js_xor_def js_rem_def charCode_def apple_def)

text \<open>
  Claim C4 (bit monotonicity). After construction and any sequence \<open>cs\<close> of \<^verbatim>\<open>add\<close> and
  \<^verbatim>\<open>contains\<close> calls, every slot of the bit array holds 0 or 1; a slot that holds 1 still
  holds 1 after any further calls \<open>cs'\<close>; and a slot holds 0 after further calls only if it
  held 0 before them, so no call writes a 0.
\<close>

theorem bits_monotone:
  assumes "constructor sz k = Inr bf0"
  shows "(\<forall>key v. bitArray (run bf0 cs) key = Some v \<longrightarrow> v = 0 \<or> v = 1) \<and>
         (\<forall>key. bitArray (run bf0 cs) key = Some 1 \<longrightarrow>
                 bitArray (run (run bf0 cs) cs') key = Some 1) \<and>
         (\<forall>key. bitArray (run (run bf0 cs) cs') key = Some 0 \<longrightarrow>
                 bitArray (run bf0 cs) key = Some 0)"
proof (intro conjI allI impI)
  fix key v
  assume "bitArray (run bf0 cs) key = Some v"
  from run_bits01 [OF this] show "v = 0 \<or> v = 1"
    using constructor_Inr [OF assms] Array_fill0_values by auto
next
  fix key
  assume "bitArray (run bf0 cs) key = Some 1"
  then show "bitArray (run (run bf0 cs) cs') key = Some 1"
    by (rule run_keeps_one)
next
  fix key
  assume "bitArray (run (run bf0 cs) cs') key = Some 0"
  then show "bitArray (run bf0 cs) key = Some 0"
    by (rule run_zero_was_zero)
qed

theorem bits_monotone_witness:
  "constructor 100 3 = Inr bf1 \<and> bitArray (run bf1 [Add apple]) (Num 10) = Some 1 \<and>
   bitArray (run (run bf1 [Add apple]) [Add banana, Contains grape]) (Num 10) = Some 1"
proof -
  have c: "constructor 100 3 = Inr bf1"
    by (simp add: constructor_def bf1_def)
  have one: "bitArray (run bf1 [Add apple]) (Num 10) = Some 1"
    by code_simp
  show ?thesis
    using c one bits_monotone [OF c, of "[Add apple]" "[Add banana, Contains grape]"] by blast
qed

text \<open>
  Claim C5 (empty filter). On a filter freshly built with positive size and at least one
  hash, \<^verbatim>\<open>contains\<close> returns \<^verbatim>\<open>false\<close> for every string.
\<close>

theorem empty_filter:
  assumes "constructor sz k = Inr bf" and "0 < sz" and "1 \<le> k"
  shows "fst (contains bf item) = False"
proof -
  have bf: "size_m bf = sz" "numHashes bf = k" "bitArray bf = Array_fill0 sz"
    using constructor_Inr [OF assms(1)] by simp_all
  obtain i where i: "u_hash bf item 0 = Num i" "0 \<le> i" "i < sz"
    using u_hash_in_range [of bf item 0] assms(2) bf by auto
  have "u_hash bf item 0 \<in> indices bf item 0"
    using assms(3) bf by (simp add: indices_def)
  moreover have "bitArray bf (u_hash bf item 0) = Some 0"
    using i bf by (simp add: Array_fill0_def)
  ultimately show ?thesis
    by (auto simp: contains_eq)
qed

theorem empty_filter_witness:
  "constructor 100 3 = Inr bf1 \<and> (0::int) < 100 \<and> (1::int) \<le> 3 \<and>
   fst (contains bf1 grape) = False"
  using empty_filter [of 100 3 bf1 grape] by (simp add: constructor_def bf1_def)

text \<open>
  Claim C6 (construction misuse), as the claim states it, fails: the constructor has no
  check of its own, and size 0 is a valid array length, so \<^verbatim>\<open>new BloomFilter(0, 3)\<close>
  returns a filter.
\<close>

theorem construction_misuse_counterexample:
  "constructor 0 3 = Inr \<lparr>size_m = 0, numHashes = 3, bitArray = Array_fill0 0\<rparr>"
  by (simp add: constructor_def)

text \<open>
  Claim C6, amended. A negative size is rejected with the \<^verbatim>\<open>RangeError\<close> of the array
  allocation. Size 0 is accepted: the constructor returns a filter with an empty bit
  array, on which \<^verbatim>\<open>_hash\<close> returns \<open>NaN\<close> for every item and seed.
\<close>

theorem construction_misuse:
  "(sz < 0 \<longrightarrow> constructor sz k = Inl RangeError) \<and>
   constructor 0 k = Inr \<lparr>size_m = 0, numHashes = k, bitArray = Array_fill0 0\<rparr> \<and>
   u_hash \<lparr>size_m = 0, numHashes = k, bitArray = Array_fill0 0\<rparr> item seed = NaN"
  by (simp add: constructor_def u_hash_size_zero)

theorem construction_misuse_witness:
  "(-1::int) < 0 \<and> constructor (-1) 3 = Inl RangeError"
  using construction_misuse [of "-1" 3] by simp

text \<open>
  Claim C7 (determinism). The result of \<^verbatim>\<open>_hash(item, seed)\<close> is a function of the item, the
  seed and the filter's size alone: two filters of the same size, whatever their bit arrays
  and numbers of hashes, give the same index.
\<close>

theorem hash_deterministic:
  "size_m bf = size_m bf' \<Longrightarrow> u_hash bf item seed = u_hash bf' item seed"
  by (rule u_hash_size_only)

theorem hash_deterministic_witness:
  "size_m bf1 = size_m (add bf1 apple) \<and> u_hash bf1 banana 2 = u_hash (add bf1 apple) banana 2"
  using hash_deterministic [of bf1 "add bf1 apple" banana 2] by (simp add: add_eq)

text \<open>
  Claim C8 (frame). \<^verbatim>\<open>add(item)\<close> leaves \<^verbatim>\<open>size\<close> and \<^verbatim>\<open>numHashes\<close> unchanged and changes no
  slot of the bit array other than those at the indices derived from \<open>item\<close>;
  \<^verbatim>\<open>contains(item)\<close> leaves the whole filter unchanged.
\<close>

theorem add_contains_frame:
  "size_m (add bf item) = size_m bf \<and> numHashes (add bf item) = numHashes bf \<and>
   (\<forall>key. key \<notin> indices bf item 0 \<longrightarrow> bitArray (add bf item) key = bitArray bf key) \<and>
   snd (contains bf item) = bf"
  by (simp add: add_eq contains_eq)

theorem add_contains_frame_witness:
  "Num 5 \<notin> indices bf1 apple 0 \<and> bitArray (add bf1 apple) (Num 5) = bitArray bf1 (Num 5)"
proof -
  have "Num 5 \<notin> indices bf1 apple 0"
    by code_simp
  then show ?thesis
    using add_contains_frame [of bf1 apple] by blast
qed

text \<open>
  Claim C9 (idempotence and commutativity of \<^verbatim>\<open>add\<close>). For every filter, in particular for
  positive size and at least one hash, adding \<open>x\<close> twice leaves the same state as adding it
  once, and adding \<open>x\<close> then \<open>y\<close> leaves the same state as adding \<open>y\<close> then \<open>x\<close>.
\<close>

theorem add_idempotent_commutative:
  "add (add bf x) x = add bf x \<and> add (add bf x) y = add (add bf y) x"
proof
  show "add (add bf x) x = add bf x"
    by (simp add: add_add) (simp add: add_eq)
  show "add (add bf x) y = add (add bf y) x"
    by (simp add: add_add Un_commute)
qed

text \<open>
  Claim C10 (no hashes). On a filter built with \<^verbatim>\<open>numHashes = 0\<close>, after any calls, \<^verbatim>\<open>add\<close>
  changes nothing and \<^verbatim>\<open>contains\<close> returns \<^verbatim>\<open>true\<close> for every item; so it does on the fresh
  filter, to which nothing was added.
\<close>

theorem zero_hashes:
  assumes "constructor sz 0 = Inr bf0"
  shows "add (run bf0 cs) item = run bf0 cs \<and> fst (contains (run bf0 cs) item) = True \<and>
         fst (contains bf0 item) = True"
proof -
  have "numHashes bf0 = 0"
    using constructor_Inr [OF assms] by simp
  then have "indices (run bf0 cs) item 0 = {}" "indices bf0 item 0 = {}"
    by (simp_all add: indices_def)
  then show ?thesis
    by (simp add: add_eq contains_eq)
qed

theorem zero_hashes_witness:
  "constructor 100 0 = Inr \<lparr>size_m = 100, numHashes = 0, bitArray = Array_fill0 100\<rparr> \<and>
   fst (contains \<lparr>size_m = 100, numHashes = 0, bitArray = Array_fill0 100\<rparr> apple) = True"
  using zero_hashes [of 100 "\<lparr>size_m = 100, numHashes = 0, bitArray = Array_fill0 100\<rparr>" "[]" apple]
  by (simp add: constructor_def)

end
